theory Spec2Isabelle
  imports Complex_Main
begin

unbundle bit_operations_syntax

section \<open>Host values\<close>

text \<open>
  The helpers are written in TypeScript and run on a JavaScript host. A caller can pass
  any value whatever the declared parameter type, which is why every helper starts with
  a \<open>typeof\<close> test. The values the model ranges over are the primitives and arrays.

  A string is the list of its UTF-16 code units. A number is a finite value or one of
  the three special values of the host's arithmetic. Arithmetic on finite values is
  exact here: it coincides with the host's double arithmetic wherever the host's result
  needs no rounding (integers of magnitude up to \<open>2 ^ 53\<close> in particular). The one
  place where the host turns an arbitrarily long numeral into a number, \<open>parseInt\<close>,
  rounds as the host does. The two zeros of the host are identified; no helper divides
  a non-zero value by a negative zero, so the sign of a zero is never observed.
\<close>

type_synonym jsstring = "nat list"

definition lit :: "string \<Rightarrow> jsstring" where
  "lit s = map of_char s"

datatype number = Fin rat | NaN | PosInf | NegInf

datatype jsval =
    Undefined
  | Null
  | Bool bool
  | Num number
  | Str jsstring
  | Arr "jsval list"

datatype jstype = T_undefined | T_object | T_boolean | T_number | T_string

fun typeof :: "jsval \<Rightarrow> jstype" where
  "typeof Undefined = T_undefined"
| "typeof Null = T_object"
| "typeof (Bool _) = T_boolean"
| "typeof (Num _) = T_number"
| "typeof (Str _) = T_string"
| "typeof (Arr _) = T_object"

text \<open>
  \<open>throw new Error(...)\<close> is the only error the helpers raise themselves, the
  specification's \<open>InvalidArgument\<close>; the message is not modelled. \<open>HostTypeError\<close>
  is the \<open>TypeError\<close> the host raises from \<open>Array.prototype.reduce\<close> on an empty
  array with no initial value.
\<close>

datatype error = InvalidArgument | HostTypeError

section \<open>Host arithmetic\<close>

fun neg :: "number \<Rightarrow> number" where
  "neg (Fin a) = Fin (- a)"
| "neg NaN = NaN"
| "neg PosInf = NegInf"
| "neg NegInf = PosInf"

fun add :: "number \<Rightarrow> number \<Rightarrow> number" where
  "add NaN _ = NaN"
| "add _ NaN = NaN"
| "add (Fin a) (Fin b) = Fin (a + b)"
| "add PosInf NegInf = NaN"
| "add NegInf PosInf = NaN"
| "add PosInf _ = PosInf"
| "add NegInf _ = NegInf"
| "add (Fin _) PosInf = PosInf"
| "add (Fin _) NegInf = NegInf"


text \<open>The sign of a number: \<open>1\<close>, \<open>0\<close> or \<open>-1\<close> (\<open>0\<close> for \<open>NaN\<close>).\<close>

fun sign :: "number \<Rightarrow> int" where
  "sign (Fin a) = (if a > 0 then 1 else if a < 0 then -1 else 0)"
| "sign NaN = 0"
| "sign PosInf = 1"
| "sign NegInf = -1"

fun is_fin :: "number \<Rightarrow> bool" where
  "is_fin (Fin _) = True"
| "is_fin _ = False"

definition inf_of_sign :: "int \<Rightarrow> number" where
  "inf_of_sign s = (if s > 0 then PosInf else if s < 0 then NegInf else NaN)"

fun mul :: "number \<Rightarrow> number \<Rightarrow> number" where
  "mul NaN _ = NaN"
| "mul _ NaN = NaN"
| "mul (Fin a) (Fin b) = Fin (a * b)"
| "mul a b = inf_of_sign (sign a * sign b)"

text \<open>
  \<open>a / b\<close>: a finite non-zero value over zero is an infinity, zero over zero and
  infinity over infinity are \<open>NaN\<close>, a finite value over an infinity is zero.
\<close>

fun divide :: "number \<Rightarrow> number \<Rightarrow> number" where
  "divide NaN _ = NaN"
| "divide _ NaN = NaN"
| "divide (Fin a) (Fin b) = (if b = 0 then inf_of_sign (sign (Fin a)) else Fin (a / b))"
| "divide (Fin _) _ = Fin 0"
| "divide a (Fin b) = (if b < 0 then neg a else a)"
| "divide _ _ = NaN"

text \<open>
  \<open>a % b\<close>: the remainder of the division truncated towards zero, so its sign is the
  dividend's. \<open>NaN\<close> for an infinite dividend or a zero divisor; the dividend itself
  for an infinite divisor.
\<close>

definition trunc :: "rat \<Rightarrow> int" where
  "trunc q = (if q < 0 then - \<lfloor>- q\<rfloor> else \<lfloor>q\<rfloor>)"

fun rem :: "number \<Rightarrow> number \<Rightarrow> number" where
  "rem NaN _ = NaN"
| "rem _ NaN = NaN"
| "rem (Fin a) (Fin b) = (if b = 0 then NaN else Fin (a - b * of_int (trunc (a / b))))"
| "rem (Fin a) _ = Fin a"
| "rem _ _ = NaN"

fun abs_num :: "number \<Rightarrow> number" where
  "abs_num (Fin a) = Fin \<bar>a\<bar>"
| "abs_num NaN = NaN"
| "abs_num _ = PosInf"

text \<open>\<open>a < b\<close>, \<open>a <= b\<close> and \<open>a === b\<close>: all false as soon as one side is \<open>NaN\<close>.\<close>

fun lt :: "number \<Rightarrow> number \<Rightarrow> bool" where
  "lt NaN _ = False"
| "lt _ NaN = False"
| "lt (Fin a) (Fin b) = (a < b)"
| "lt _ NegInf = False"
| "lt PosInf _ = False"
| "lt _ _ = True"

fun strict_eq :: "number \<Rightarrow> number \<Rightarrow> bool" where
  "strict_eq NaN _ = False"
| "strict_eq _ NaN = False"
| "strict_eq a b = (a = b)"

definition le :: "number \<Rightarrow> number \<Rightarrow> bool" where
  "le a b = (lt a b \<or> strict_eq a b)"



fun Math_floor :: "number \<Rightarrow> number" where
  "Math_floor (Fin a) = Fin (of_int \<lfloor>a\<rfloor>)"
| "Math_floor x = x"


text \<open>
  The bitwise operators work on \<open>ToInt32\<close> of their operands: \<open>NaN\<close> and the
  infinities become \<open>0\<close>, a finite value is truncated and wrapped into
  \<open>[- 2 ^ 31, 2 ^ 31)\<close>.
\<close>

definition wrap32 :: "int \<Rightarrow> int" where
  "wrap32 i = (i + 2 ^ 31) mod 2 ^ 32 - 2 ^ 31"

fun ToInt32 :: "number \<Rightarrow> int" where
  "ToInt32 (Fin a) = wrap32 (trunc a)"
| "ToInt32 _ = 0"

definition num_of_int :: "int \<Rightarrow> number" where
  "num_of_int i = Fin (of_int i)"

text \<open>\<open>a << k\<close>, \<open>a >> k\<close> (sign-propagating) and \<open>a & b\<close>, for \<open>k < 32\<close>.\<close>

definition shl :: "number \<Rightarrow> nat \<Rightarrow> number" where
  "shl a k = num_of_int (wrap32 (push_bit k (ToInt32 a)))"

definition shr :: "number \<Rightarrow> nat \<Rightarrow> number" where
  "shr a k = num_of_int (drop_bit k (ToInt32 a))"

definition band :: "number \<Rightarrow> number \<Rightarrow> number" where
  "band a b = num_of_int (ToInt32 a AND ToInt32 b)"

section \<open>Host strings\<close>

text \<open>
  What the host prints is modelled where the language standard fixes it: an integer in
  a given radix, and the special values. The rest is left to the host, and the helpers
  that print take it as a parameter: the rendering in radix 16 of a finite value that
  is not an integer, the decimal rendering of a finite value that is not an integer of
  magnitude below \<open>10 ^ 21\<close>, and the rendering of the properties every object
  inherits (\<open>toString\<close>, \<open>constructor\<close>, ...), \<open>None\<close> for a key that names
  no inherited property.
\<close>

record host =
  radix16_other :: "rat \<Rightarrow> jsstring"
  decimal_other :: "rat \<Rightarrow> jsstring"
  inherited :: "jsstring \<Rightarrow> jsstring option"

definition digit_char :: "nat \<Rightarrow> nat" where
  "digit_char d = (if d < 10 then 48 + d else 87 + d)"

function digits :: "nat \<Rightarrow> nat \<Rightarrow> jsstring" where
  "digits b n =
     (if n < b \<or> b < 2 then [digit_char n] else digits b (n div b) @ [digit_char (n mod b)])"
  by pat_completeness auto
termination
  by (relation "measure (\<lambda>(b, n). n)") auto

declare digits.simps [simp del]

definition int_to_string :: "nat \<Rightarrow> int \<Rightarrow> jsstring" where
  "int_to_string b i = (if i < 0 then 45 # digits b (nat (- i)) else digits b (nat i))"

definition is_integer :: "rat \<Rightarrow> bool" where
  "is_integer q = (of_int \<lfloor>q\<rfloor> = q)"

text \<open>\<open>String(x)\<close> of a number, as a template literal applies it.\<close>

fun Number_toString :: "host \<Rightarrow> number \<Rightarrow> jsstring" where
  "Number_toString h (Fin q) =
     (if is_integer q \<and> \<bar>q\<bar> < 10 ^ 21 then int_to_string 10 \<lfloor>q\<rfloor> else decimal_other h q)"
| "Number_toString h NaN = lit ''NaN''"
| "Number_toString h PosInf = lit ''Infinity''"
| "Number_toString h NegInf = lit ''-Infinity''"

text \<open>\<open>x.toString(16)\<close>.\<close>

fun toString16 :: "host \<Rightarrow> number \<Rightarrow> jsstring" where
  "toString16 h (Fin q) =
     (if is_integer q then int_to_string 16 \<lfloor>q\<rfloor> else radix16_other h q)"
| "toString16 h x = Number_toString h x"

text \<open>\<open>s.replace(c, '')\<close> for a one-character pattern: the first occurrence goes.\<close>

fun String_replace :: "nat \<Rightarrow> jsstring \<Rightarrow> jsstring" where
  "String_replace c [] = []"
| "String_replace c (x # xs) = (if x = c then xs else x # String_replace c xs)"

text \<open>
  \<open>parseInt(s, 16)\<close>: leading white space is skipped, then an optional sign, then an
  optional \<open>0x\<close> or \<open>0X\<close>; the longest run of hexadecimal digits that follows is the
  numeral, and whatever comes after it is ignored. With no digit the result is \<open>NaN\<close>.
  The value of the numeral is rounded to the nearest double, ties to even, and is
  infinite from \<open>2 ^ 1024\<close> on.
\<close>

definition is_whitespace :: "nat \<Rightarrow> bool" where
  "is_whitespace c \<longleftrightarrow>
     c \<in> {9, 10, 11, 12, 13, 32, 160, 5760, 8232, 8233, 8239, 8287, 12288, 65279}
     \<or> (8192 \<le> c \<and> c \<le> 8202)"

definition is_hex_digit :: "nat \<Rightarrow> bool" where
  "is_hex_digit c \<longleftrightarrow> (48 \<le> c \<and> c \<le> 57) \<or> (65 \<le> c \<and> c \<le> 70) \<or> (97 \<le> c \<and> c \<le> 102)"

definition digit_value :: "nat \<Rightarrow> nat" where
  "digit_value c = (if c \<le> 57 then c - 48 else if c \<le> 70 then c - 55 else c - 87)"

definition numeral_value :: "jsstring \<Rightarrow> nat" where
  "numeral_value Z = foldl (\<lambda>a c. 16 * a + digit_value c) 0 Z"

fun bitlen :: "nat \<Rightarrow> nat" where
  "bitlen n = (if n = 0 then 0 else Suc (bitlen (n div 2)))"

declare bitlen.simps [simp del]

definition round_to_double :: "nat \<Rightarrow> number" where
  "round_to_double n =
     (let k = bitlen n in
      if k \<le> 53 then Fin (of_nat n)
      else
        let e = k - 53;
            q = n div 2 ^ e;
            r = n mod 2 ^ e;
            q' = (if 2 * r > 2 ^ e \<or> (2 * r = 2 ^ e \<and> odd q) then q + 1 else q);
            v = q' * 2 ^ e
        in if v \<ge> 2 ^ 1024 then PosInf else Fin (of_nat v))"

definition parseInt16 :: "jsstring \<Rightarrow> number" where
  "parseInt16 inputString =
     (let S = dropWhile is_whitespace inputString;
          negative = (S \<noteq> [] \<and> hd S = 45);
          S1 = (if S \<noteq> [] \<and> (hd S = 43 \<or> hd S = 45) then tl S else S);
          S2 = (if take 2 S1 = [48, 120] \<or> take 2 S1 = [48, 88] then drop 2 S1 else S1);
          Z = takeWhile is_hex_digit S2
      in if Z = [] then NaN
         else if negative then neg (round_to_double (numeral_value Z))
         else round_to_double (numeral_value Z))"

section \<open>colors: the hexadecimal helpers\<close>

record rgb =
  rgb_r :: number
  rgb_g :: number
  rgb_b :: number

text \<open>The value under a \<open>Num\<close> or a \<open>Str\<close>, read only after the \<open>typeof\<close> test.\<close>

fun num_of :: "jsval \<Rightarrow> number" where
  "num_of (Num x) = x"
| "num_of _ = NaN"

fun str_of :: "jsval \<Rightarrow> jsstring" where
  "str_of (Str s) = s"
| "str_of _ = []"

definition rgbToHex :: "host \<Rightarrow> jsval \<Rightarrow> jsval \<Rightarrow> jsval \<Rightarrow> error + jsstring" where
  "rgbToHex h r g b =
     (if typeof r \<noteq> T_number \<or> typeof g \<noteq> T_number \<or> typeof b \<noteq> T_number
      then Inl InvalidArgument
      else Inr (35 # drop 1 (toString16 h
             (add (add (add (shl (Fin 1) 24) (shl (num_of r) 16)) (shl (num_of g) 8))
                (num_of b)))))"

definition hexToRgb :: "jsval \<Rightarrow> error + rgb" where
  "hexToRgb hex =
     (if typeof hex \<noteq> T_string then Inl InvalidArgument
      else
        let bigint = parseInt16 (String_replace 35 (str_of hex))
        in Inr \<lparr>rgb_r = band (shr bigint 16) (Fin 255),
                rgb_g = band (shr bigint 8) (Fin 255),
                rgb_b = band bigint (Fin 255)\<rparr>)"


definition randomRgb :: "number \<Rightarrow> number \<Rightarrow> number \<Rightarrow> rgb" where
  "randomRgb u1 u2 u3 =
     \<lparr>rgb_r = Math_floor (mul u1 (Fin 255)),
      rgb_g = Math_floor (mul u2 (Fin 255)),
      rgb_b = Math_floor (mul u3 (Fin 255))\<rparr>"

section \<open>colors: hue, saturation, lightness\<close>

record hsl =
  hsl_h :: number
  hsl_s :: number
  hsl_l :: number



definition randomHsl :: "number \<Rightarrow> number \<Rightarrow> number \<Rightarrow> hsl" where
  "randomHsl u1 u2 u3 =
     \<lparr>hsl_h = Math_floor (mul u1 (Fin 360)),
      hsl_s = Math_floor (mul u2 (Fin 100)),
      hsl_l = Math_floor (mul u3 (Fin 100))\<rparr>"



section \<open>discordTimestamps\<close>

definition formats :: "(jsstring \<times> jsstring) list" where
  "formats =
     [(lit ''RELATIVE'', lit ''R''),
      (lit ''DATE'', lit ''D''),
      (lit ''TIME'', lit ''T''),
      (lit ''SHORT_TIME'', lit ''t''),
      (lit ''FULL'', lit ''F'')]"

definition Object_keys :: "(jsstring \<times> jsstring) list \<Rightarrow> jsstring list" where
  "Object_keys obj = map fst obj"

text \<open>\<open>keys.includes(v)\<close> compares by value: only a string equals a key.\<close>

definition Array_includes :: "jsstring list \<Rightarrow> jsval \<Rightarrow> bool" where
  "Array_includes keys v = (v \<in> set (map Str keys))"

text \<open>A parameter declared \<open>format = 'FULL'\<close> takes its default when \<open>undefined\<close> comes.\<close>

definition default_FULL :: "jsval \<Rightarrow> jsval" where
  "default_FULL v = (if v = Undefined then Str (lit ''FULL'') else v)"

text \<open>
  \<open>String(v)\<close> as property access and template literals apply it. An array prints
  its elements separated by commas, \<open>undefined\<close> and \<open>null\<close> elements as nothing.
\<close>

fun join_comma :: "jsstring list \<Rightarrow> jsstring" where
  "join_comma [] = []"
| "join_comma [x] = x"
| "join_comma (x # y # ys) = x @ 44 # join_comma (y # ys)"

fun ToString :: "host \<Rightarrow> jsval \<Rightarrow> jsstring" where
  "ToString h Undefined = lit ''undefined''"
| "ToString h Null = lit ''null''"
| "ToString h (Bool b) = (if b then lit ''true'' else lit ''false'')"
| "ToString h (Num x) = Number_toString h x"
| "ToString h (Str s) = s"
| "ToString h (Arr xs) =
     join_comma (map (\<lambda>v. if v = Undefined \<or> v = Null then [] else ToString h v) xs)"

text \<open>
  What \<open>${formats[format]}\<close> prints: the code of an own key, else what the host's
  objects inherit under that key, else \<open>undefined\<close>.
\<close>

definition formats_at :: "host \<Rightarrow> jsval \<Rightarrow> jsstring" where
  "formats_at h format =
     (case map_of formats (ToString h format) of
        Some code \<Rightarrow> code
      | None \<Rightarrow>
          (case inherited h (ToString h format) of
             Some s \<Rightarrow> s
           | None \<Rightarrow> lit ''undefined''))"

definition timestamp :: "host \<Rightarrow> number \<Rightarrow> jsval \<Rightarrow> jsstring" where
  "timestamp h seconds format =
     lit ''<t:'' @ Number_toString h seconds @ lit '':'' @ formats_at h format @ lit ''>''"

text \<open>
  The validating variant (\<open>src/index.ts\<close>). \<open>now\<close> and \<open>fromNow\<close> read the clock;
  the model takes the reading \<open>Date.now()\<close> as the parameter \<open>clock\<close>.
\<close>

definition fromDate :: "host \<Rightarrow> jsval \<Rightarrow> jsval \<Rightarrow> error + jsstring" where
  "fromDate h date format0 =
     (let format = default_FULL format0 in
      if typeof date \<noteq> T_number then Inl InvalidArgument
      else if Array_includes (Object_keys formats) format = False then Inl InvalidArgument
      else
        let parsed = Math_floor (divide (num_of date) (Fin 1000))
        in Inr (timestamp h parsed format))"

definition now :: "host \<Rightarrow> number \<Rightarrow> jsval \<Rightarrow> error + jsstring" where
  "now h clock format0 =
     (let format = default_FULL format0 in
      if Array_includes (Object_keys formats) format = False then Inl InvalidArgument
      else Inr (timestamp h (Math_floor (divide clock (Fin 1000))) format))"

definition fromNow :: "host \<Rightarrow> number \<Rightarrow> jsval \<Rightarrow> jsval \<Rightarrow> error + jsstring" where
  "fromNow h clock ms format0 =
     (let format = default_FULL format0 in
      if typeof ms \<noteq> T_number then Inl InvalidArgument
      else if Array_includes (Object_keys formats) format = False then Inl InvalidArgument
      else Inr (timestamp h (Math_floor (divide (add clock (num_of ms)) (Fin 1000))) format))"

text \<open>The variant without the format test (\<open>src/unnamed/part_000\<close>).\<close>

definition fromDate_part_000 :: "host \<Rightarrow> jsval \<Rightarrow> jsval \<Rightarrow> error + jsstring" where
  "fromDate_part_000 h date format0 =
     (let format = default_FULL format0 in
      if typeof date \<noteq> T_number then Inl InvalidArgument
      else
        let parsed = Math_floor (divide (num_of date) (Fin 1000))
        in Inr (timestamp h parsed format))"

definition now_part_000 :: "host \<Rightarrow> number \<Rightarrow> jsval \<Rightarrow> error + jsstring" where
  "now_part_000 h clock format0 =
     (let format = default_FULL format0 in
      Inr (timestamp h (Math_floor (divide clock (Fin 1000))) format))"

definition fromNow_part_000 :: "host \<Rightarrow> number \<Rightarrow> jsval \<Rightarrow> jsval \<Rightarrow> error + jsstring" where
  "fromNow_part_000 h clock ms format0 =
     (let format = default_FULL format0 in
      if typeof ms \<noteq> T_number then Inl InvalidArgument
      else Inr (timestamp h (Math_floor (divide (add clock (num_of ms)) (Fin 1000))) format))"

section \<open>numbers\<close>



text \<open>
  The guard \<open>i <= Math.sqrt(num)\<close> of the loop of \<open>isPrime\<close>. A square root is not a
  rational in general, so the comparison is modelled as a whole: for \<open>num \<ge> 0\<close> it
  holds when \<open>i \<le> 0\<close> or \<open>i * i \<le> num\<close> (lemma \<open>le_sqrt_real\<close> below); the root
  of a negative number is \<open>NaN\<close>, that of \<open>Infinity\<close> is \<open>Infinity\<close>.
\<close>

fun le_sqrt :: "number \<Rightarrow> number \<Rightarrow> bool" where
  "le_sqrt NaN _ = False"
| "le_sqrt _ NaN = False"
| "le_sqrt _ NegInf = False"
| "le_sqrt _ PosInf = True"
| "le_sqrt (Fin i) (Fin x) = (0 \<le> x \<and> (i \<le> 0 \<or> i * i \<le> x))"
| "le_sqrt NegInf (Fin x) = (0 \<le> x)"
| "le_sqrt PosInf (Fin x) = False"

text \<open>
  The loop \<open>for (let i = 2; i <= Math.sqrt(num); i++)\<close>. It may run forever, so it
  is a partial function: \<open>None\<close> is the loop that never exits.
\<close>

partial_function (option) isPrime_loop :: "number \<Rightarrow> number \<Rightarrow> bool option" where
  "isPrime_loop num i =
     (if le_sqrt i num then
        if strict_eq (rem num i) (Fin 0) then Some False
        else isPrime_loop num (add i (Fin 1))
      else Some True)"

declare isPrime_loop.simps [code]

definition isPrime :: "jsval \<Rightarrow> (error + bool) option" where
  "isPrime num =
     (if typeof num \<noteq> T_number then Some (Inl InvalidArgument)
      else if lt (num_of num) (Fin 2) then Some (Inr False)
      else map_option Inr (isPrime_loop (num_of num) (Fin 2)))"



fun reduce_from ::
  "('a \<Rightarrow> 'a \<Rightarrow> (error + 'a) option) \<Rightarrow> 'a \<Rightarrow> 'a list \<Rightarrow> (error + 'a) option" where
  "reduce_from f acc [] = Some (Inr acc)"
| "reduce_from f acc (x # xs) =
     (case f acc x of
        None \<Rightarrow> None
      | Some (Inl e) \<Rightarrow> Some (Inl e)
      | Some (Inr v) \<Rightarrow> reduce_from f v xs)"

definition Array_reduce_partial ::
  "('a \<Rightarrow> 'a \<Rightarrow> (error + 'a) option) \<Rightarrow> 'a list \<Rightarrow> (error + 'a) option" where
  "Array_reduce_partial f xs =
     (case xs of [] \<Rightarrow> Some (Inl HostTypeError) | x # rest \<Rightarrow> reduce_from f x rest)"


text \<open>
  \<open>gdc\<close> calls itself until its second argument is zero, which need not happen:
  \<open>None\<close> is the recursion that never returns.
\<close>

partial_function (option) gdc :: "jsval \<Rightarrow> jsval \<Rightarrow> (error + number) option" where
  "gdc a b =
     (if typeof a \<noteq> T_number \<or> typeof b \<noteq> T_number then Some (Inl InvalidArgument)
      else if strict_eq (num_of b) (Fin 0) then Some (Inr (num_of a))
      else gdc b (Num (rem (num_of a) (num_of b))))"

declare gdc.simps [code]

definition gdcArray :: "jsval list \<Rightarrow> (error + number) option" where
  "gdcArray numbers =
     (if list_ex (\<lambda>n. typeof n \<noteq> T_number) numbers then Some (Inl InvalidArgument)
      else Array_reduce_partial (\<lambda>a b. gdc (Num a) (Num b)) (map num_of numbers))"

definition lcm :: "jsval \<Rightarrow> jsval \<Rightarrow> (error + number) option" where
  "lcm a b =
     (if typeof a \<noteq> T_number \<or> typeof b \<noteq> T_number then Some (Inl InvalidArgument)
      else
        case gdc a b of
          None \<Rightarrow> None
        | Some (Inl e) \<Rightarrow> Some (Inl e)
        | Some (Inr d) \<Rightarrow> Some (Inr (divide (abs_num (mul (num_of a) (num_of b))) d)))"

definition lcmArray :: "jsval list \<Rightarrow> (error + number) option" where
  "lcmArray numbers =
     (if list_ex (\<lambda>n. typeof n \<noteq> T_number) numbers then Some (Inl InvalidArgument)
      else Array_reduce_partial (\<lambda>a b. lcm (Num a) (Num b)) (map num_of numbers))"

section \<open>A host to run the model on\<close>


section \<open>Proofs\<close>

subsection \<open>Numerals in radix 16\<close>

text \<open>\<open>hexpad k x\<close> is \<open>x\<close> written with exactly \<open>k\<close> hexadecimal digits.\<close>

fun hexpad :: "nat \<Rightarrow> nat \<Rightarrow> jsstring" where
  "hexpad 0 x = []"
| "hexpad (Suc k) x = hexpad k (x div 16) @ [digit_char (x mod 16)]"

lemma bitlen_le: "n < 2 ^ k \<Longrightarrow> bitlen n \<le> k"
proof (induction k arbitrary: n)
  case 0
  then show ?case by (simp add: bitlen.simps)
next
  case (Suc k)
  have "n div 2 < 2 ^ k" using Suc.prems by auto
  from Suc.IH [OF this] show ?case by (subst bitlen.simps) simp
qed

lemma round_to_double_exact: "n < 2 ^ 53 \<Longrightarrow> round_to_double n = Fin (of_nat n)"
  using bitlen_le [of n 53] by (simp add: round_to_double_def Let_def)

lemma digits_leading_one: "x < 16 ^ k \<Longrightarrow> digits 16 (16 ^ k + x) = 49 # hexpad k x"
proof (induction k arbitrary: x)
  case 0
  then show ?case by (simp add: digit_char_def digits.simps)
next
  case (Suc k)
  have d: "(16 ^ Suc k + x) div 16 = 16 ^ k + x div 16" by simp
  have m: "(16 ^ Suc k + x) mod 16 = x mod 16" by simp
  have lt: "x div 16 < 16 ^ k" using Suc.prems by (simp add: less_mult_imp_div_less mult.commute)
  have "(1::nat) \<le> 16 ^ k" by simp
  then have "\<not> 16 * 16 ^ k + x < 16" by linarith
  then have ge: "\<not> 16 ^ Suc k + x < 16" by simp
  show ?case
    apply (subst digits.simps)
    using ge apply (simp only: d m if_False Suc.IH [OF lt]) 
    apply simp
    done
qed

lemma hex_digit_char: "d < 16 \<Longrightarrow> is_hex_digit (digit_char d)"
  by (auto simp: is_hex_digit_def digit_char_def)

lemma digit_value_char: "d < 16 \<Longrightarrow> digit_value (digit_char d) = d"
  by (auto simp: digit_value_def digit_char_def)

lemma hexpad_hex: "c \<in> set (hexpad k x) \<Longrightarrow> is_hex_digit c"
  by (induction k arbitrary: x) (auto simp: hex_digit_char)

lemma hexpad_length: "length (hexpad k x) = k"
  by (induction k arbitrary: x) auto

lemma numeral_value_snoc: "numeral_value (Z @ [c]) = 16 * numeral_value Z + digit_value c"
  by (simp add: numeral_value_def)

lemma numeral_value_hexpad: "numeral_value (hexpad k x) = x mod 16 ^ k"
proof (induction k arbitrary: x)
  case 0
  then show ?case by (simp add: numeral_value_def)
next
  case (Suc k)
  have "16 * (x div 16 mod 16 ^ k) + x mod 16 = x mod (16 * 16 ^ k)"
    by (simp add: mod_mult2_eq add.commute)
  then show ?case by (simp add: numeral_value_snoc Suc.IH digit_value_char)
qed

lemma hex_digit_plain:
  "is_hex_digit c \<Longrightarrow> \<not> is_whitespace c \<and> c \<noteq> 43 \<and> c \<noteq> 45 \<and> c \<noteq> 120 \<and> c \<noteq> 88"
  by (auto simp: is_hex_digit_def is_whitespace_def)

lemma parseInt16_numeral:
  assumes "Z \<noteq> []" and "\<forall>c\<in>set Z. is_hex_digit c"
  shows "parseInt16 Z = round_to_double (numeral_value Z)"
proof -
  obtain z zs where Z: "Z = z # zs" using assms(1) by (cases Z) auto
  have z: "hd Z \<noteq> 43" "hd Z \<noteq> 45" and ws: "\<not> is_whitespace z"
    using assms(2) hex_digit_plain Z by auto
  have t: "take 2 Z \<noteq> [48, 120]" "take 2 Z \<noteq> [48, 88]"
    using assms(2) hex_digit_plain Z by (cases zs; auto)+
  have w: "takeWhile is_hex_digit Z = Z" using assms(2) by (simp add: takeWhile_eq_all_conv)
  have d: "dropWhile is_whitespace Z = Z" using ws Z by simp
  show ?thesis by (simp add: parseInt16_def Let_def d z t w assms(1))
qed

lemma and_255: "(x::int) AND 255 = x mod 256"
proof -
  have "x AND mask 8 = x mod 2 ^ 8" by (simp only: take_bit_eq_mask [symmetric] take_bit_eq_mod)
  then show ?thesis by (simp add: mask_eq_exp_minus_1)
qed

lemma trunc_of_int: "trunc (of_int i) = i"
  by (simp add: trunc_def)

lemma wrap32_id: "- (2 ^ 31) \<le> i \<Longrightarrow> i < 2 ^ 31 \<Longrightarrow> wrap32 i = i"
  by (simp add: wrap32_def)

lemma ToInt32_small: "- (2 ^ 31) \<le> i \<Longrightarrow> i < 2 ^ 31 \<Longrightarrow> ToInt32 (num_of_int i) = i"
  by (simp add: num_of_int_def trunc_of_int wrap32_id)

lemma rgbToHex_in_range:
  assumes "0 \<le> r" "r \<le> 255" "0 \<le> g" "g \<le> 255" "0 \<le> b" "b \<le> 255"
  shows "rgbToHex h (Num (num_of_int r)) (Num (num_of_int g)) (Num (num_of_int b)) =
         Inr (35 # hexpad 6 (nat (r * 65536 + g * 256 + b)))"
proof -
  let ?x = "nat (r * 65536 + g * 256 + b)"
  have one: "shl (Fin 1) 24 = num_of_int 16777216"
    using ToInt32_small [of 1] by (simp add: shl_def num_of_int_def wrap32_id)
  have sr: "shl (num_of_int r) 16 = num_of_int (r * 65536)"
    using assms by (simp add: shl_def ToInt32_small wrap32_id push_bit_eq_mult)
  have sg: "shl (num_of_int g) 8 = num_of_int (g * 256)"
    using assms by (simp add: shl_def ToInt32_small wrap32_id push_bit_eq_mult)
  have x: "?x < 16 ^ 6" using assms by simp
  have sum: "add (add (add (num_of_int 16777216) (num_of_int (r * 65536))) (num_of_int (g * 256)))
      (num_of_int b) = num_of_int (int (16 ^ 6 + ?x))"
    using assms by (simp add: num_of_int_def)
  have ts: "toString16 h (num_of_int (int (16 ^ 6 + ?x))) = digits 16 (16 ^ 6 + ?x)"
    by (simp only: num_of_int_def toString16.simps is_integer_def floor_of_int if_True
        int_to_string_def nat_int) simp
  have body: "toString16 h
      (add (add (add (shl (Fin 1) 24) (shl (num_of_int r) 16)) (shl (num_of_int g) 8))
         (num_of_int b)) = 49 # hexpad 6 ?x"
    by (simp only: one sr sg sum ts digits_leading_one [OF x])
  show ?thesis
    by (simp add: rgbToHex_def body del: hexpad.simps)
qed

lemma hexToRgb_hexpad:
  assumes "x < 2 ^ 24"
  shows "hexToRgb (Str (35 # hexpad 6 x)) =
         Inr \<lparr>rgb_r = num_of_int (int x div 65536 mod 256),
              rgb_g = num_of_int (int x div 256 mod 256),
              rgb_b = num_of_int (int x mod 256)\<rparr>"
proof -
  have ne: "hexpad 6 x \<noteq> []" using hexpad_length [of 6 x] by auto
  have "numeral_value (hexpad 6 x) = x" using assms by (simp add: numeral_value_hexpad del: hexpad.simps)
  moreover have "x < 2 ^ 53" using assms by simp
  ultimately have p: "parseInt16 (hexpad 6 x) = num_of_int (int x)"
    using parseInt16_numeral [OF ne] hexpad_hex [of _ 6 x] round_to_double_exact [of x]
    by (simp add: num_of_int_def del: hexpad.simps)
  have i: "ToInt32 (num_of_int (int x)) = int x" using assms by (intro ToInt32_small) auto
  have k: "wrap32 (trunc 255) = 255" by (simp add: trunc_def wrap32_def)
  have s16: "ToInt32 (num_of_int (int x div 65536)) = int x div 65536"
    using assms by (intro ToInt32_small) auto
  have s8: "ToInt32 (num_of_int (int x div 256)) = int x div 256"
    using assms by (intro ToInt32_small) auto
  show ?thesis
    by (simp add: hexToRgb_def p Let_def band_def shr_def i k s16 s8 and_255 drop_bit_eq_div
        del: hexpad.simps)
qed

lemma packed_channels:
  fixes r g b :: int
  assumes "0 \<le> r" "r \<le> 255" "0 \<le> g" "g \<le> 255" "0 \<le> b" "b \<le> 255"
  shows "(r * 65536 + g * 256 + b) div 65536 mod 256 = r"
    and "(r * 65536 + g * 256 + b) div 256 mod 256 = g"
    and "(r * 65536 + g * 256 + b) mod 256 = b"
proof -
  have b0: "b div 256 = 0" "b mod 256 = b" using assms by simp_all
  have g0: "(g * 256 + b) div 65536 = 0" using assms by (simp add: div_pos_pos_trivial)
  have e1: "r * 65536 + g * 256 + b = (g * 256 + b) + r * 65536" by simp
  have "((g * 256 + b) + r * 65536) div 65536 = r + (g * 256 + b) div 65536"
    by (rule div_mult_self1) simp
  then have "(r * 65536 + g * 256 + b) div 65536 = r" unfolding e1 g0 by simp
  then show "(r * 65536 + g * 256 + b) div 65536 mod 256 = r" using assms by simp
  have e2: "r * 65536 + g * 256 + b = b + (r * 256 + g) * 256" by simp
  have "(b + (r * 256 + g) * 256) div 256 = (r * 256 + g) + b div 256"
    by (rule div_mult_self1) simp
  then have "(r * 65536 + g * 256 + b) div 256 = r * 256 + g" unfolding e2 b0 by simp
  moreover have "(r * 256 + g) mod 256 = g" using assms by simp
  ultimately show "(r * 65536 + g * 256 + b) div 256 mod 256 = g" by simp
  have "(b + (r * 256 + g) * 256) mod 256 = b mod 256" by (rule mod_mult_self1)
  then show "(r * 65536 + g * 256 + b) mod 256 = b" unfolding e2 b0 .
qed

subsection \<open>Encoding then decoding a colour\<close>

text \<open>
  C1. For all integers \<open>r\<close>, \<open>g\<close>, \<open>b\<close> in \<open>[0, 255]\<close>, \<open>rgbToHex\<close> returns a
  string and \<open>hexToRgb\<close> of that string returns exactly the record of \<open>r\<close>, \<open>g\<close> and
  \<open>b\<close>: encoding then decoding is the identity on in-range triples.
\<close>

theorem hexToRgb_rgbToHex:
  fixes r g b :: int
  assumes "0 \<le> r" "r \<le> 255" "0 \<le> g" "g \<le> 255" "0 \<le> b" "b \<le> 255"
  shows "\<exists>hex. rgbToHex h (Num (num_of_int r)) (Num (num_of_int g)) (Num (num_of_int b)) = Inr hex
           \<and> hexToRgb (Str hex) =
               Inr \<lparr>rgb_r = num_of_int r, rgb_g = num_of_int g, rgb_b = num_of_int b\<rparr>"
proof -
  let ?x = "nat (r * 65536 + g * 256 + b)"
  have enc: "rgbToHex h (Num (num_of_int r)) (Num (num_of_int g)) (Num (num_of_int b)) =
      Inr (35 # hexpad 6 ?x)"
    using assms by (rule rgbToHex_in_range)
  have x: "?x < 2 ^ 24" using assms by simp
  have ix: "int ?x = r * 65536 + g * 256 + b" using assms by simp
  have cr: "int ?x div 65536 mod 256 = r" unfolding ix using assms by (rule packed_channels)
  have cg: "int ?x div 256 mod 256 = g" unfolding ix using assms by (rule packed_channels)
  have cb: "int ?x mod 256 = b" unfolding ix using assms by (rule packed_channels)
  have dec: "hexToRgb (Str (35 # hexpad 6 ?x)) =
      Inr \<lparr>rgb_r = num_of_int r, rgb_g = num_of_int g, rgb_b = num_of_int b\<rparr>"
    using hexToRgb_hexpad [OF x] by (simp only: cr cg cb)
  from enc dec show ?thesis by blast
qed

theorem hexToRgb_rgbToHex_witness:
  "\<forall>h. rgbToHex h (Num (Fin 10)) (Num (Fin 20)) (Num (Fin 30)) = Inr (lit ''#0a141e'')
     \<and> hexToRgb (Str (lit ''#0a141e'')) = Inr \<lparr>rgb_r = Fin 10, rgb_g = Fin 20, rgb_b = Fin 30\<rparr>"
proof
  fix h
  have enc: "rgbToHex h (Num (Fin 10)) (Num (Fin 20)) (Num (Fin 30)) = Inr (lit ''#0a141e'')"
    by (simp add: rgbToHex_def shl_def trunc_def wrap32_def num_of_int_def is_integer_def
        int_to_string_def digits.simps digit_char_def lit_def)
  from hexToRgb_rgbToHex [of 10 20 30 h]
  obtain hex where "rgbToHex h (Num (Fin 10)) (Num (Fin 20)) (Num (Fin 30)) = Inr hex"
    and "hexToRgb (Str hex) = Inr \<lparr>rgb_r = Fin 10, rgb_g = Fin 20, rgb_b = Fin 30\<rparr>"
    by (auto simp: num_of_int_def)
  with enc show "rgbToHex h (Num (Fin 10)) (Num (Fin 20)) (Num (Fin 30)) = Inr (lit ''#0a141e'')
     \<and> hexToRgb (Str (lit ''#0a141e'')) = Inr \<lparr>rgb_r = Fin 10, rgb_g = Fin 20, rgb_b = Fin 30\<rparr>"
    by simp
qed

subsection \<open>The bytes of a 32-bit integer\<close>

lemma wrap32_range: "- (2 ^ 31) \<le> wrap32 i \<and> wrap32 i < 2 ^ 31"
  by (simp add: wrap32_def)

lemma ToInt32_range: "- (2 ^ 31) \<le> ToInt32 x \<and> ToInt32 x < 2 ^ 31"
  using wrap32_range by (cases x) simp_all

lemma wrap32_shift: "\<exists>k. wrap32 i = i + k * 4294967296"
proof -
  define q where "q = (i + 2147483648) div 4294967296"
  have "i + 2147483648 = 4294967296 * q + (i + 2147483648) mod 4294967296"
    unfolding q_def by simp
  then have "wrap32 i = i + (- q) * 4294967296" by (simp add: wrap32_def)
  then show ?thesis by blast
qed

lemma byte_of_shift:
  fixes i k :: int
  shows "(i + k * 4294967296) div 65536 mod 256 = i div 65536 mod 256"
    and "(i + k * 4294967296) div 256 mod 256 = i div 256 mod 256"
    and "(i + k * 4294967296) mod 256 = i mod 256"
proof -
  have a: "i + k * 4294967296 = i + (k * 65536) * 65536" by simp
  have "(i + (k * 65536) * 65536) div 65536 = k * 65536 + i div 65536"
    by (rule div_mult_self1) simp
  then have "(i + k * 4294967296) div 65536 = i div 65536 + (k * 256) * 256" unfolding a by simp
  then show "(i + k * 4294967296) div 65536 mod 256 = i div 65536 mod 256"
    by (simp only: mod_mult_self1)
  have b: "i + k * 4294967296 = i + (k * 16777216) * 256" by simp
  have "(i + (k * 16777216) * 256) div 256 = k * 16777216 + i div 256"
    by (rule div_mult_self1) simp
  then have "(i + k * 4294967296) div 256 = i div 256 + (k * 65536) * 256" unfolding b by simp
  then show "(i + k * 4294967296) div 256 mod 256 = i div 256 mod 256"
    by (simp only: mod_mult_self1)
  show "(i + k * 4294967296) mod 256 = i mod 256" unfolding b by (rule mod_mult_self1)
qed

lemma wrap32_bytes:
  "wrap32 i div 65536 mod 256 = i div 65536 mod 256"
  "wrap32 i div 256 mod 256 = i div 256 mod 256"
  "wrap32 i mod 256 = i mod 256"
proof -
  obtain k where "wrap32 i = i + k * 4294967296" using wrap32_shift by blast
  then show "wrap32 i div 65536 mod 256 = i div 65536 mod 256"
    "wrap32 i div 256 mod 256 = i div 256 mod 256"
    "wrap32 i mod 256 = i mod 256"
    by (simp_all only: byte_of_shift)
qed

lemma div_pow2_between:
  fixes w :: int
  shows "min w 0 \<le> w div 2 ^ k \<and> w div 2 ^ k \<le> max w 0"
proof (cases "0 \<le> w")
  case True
  have "w div 2 ^ k \<le> w div 1" using True by (intro zdiv_mono2) simp_all
  moreover have "0 \<le> w div 2 ^ k" using True by (simp add: div_int_pos_iff)
  ultimately show ?thesis using True by simp
next
  case False
  then have neg: "w < 0" by simp
  have "w div 1 \<le> w div 2 ^ k" using neg by (intro zdiv_mono2_neg) simp_all
  moreover have "w div 2 ^ k < 0" using neg by (simp add: pos_imp_zdiv_neg_iff)
  ultimately show ?thesis using neg by simp
qed

lemma ToInt32_shr: "ToInt32 (shr x k) = drop_bit k (ToInt32 x)"
proof -
  let ?w = "ToInt32 x"
  have "- (2 ^ 31) \<le> ?w" "?w < 2 ^ 31" using ToInt32_range [of x] by auto
  with div_pow2_between [of ?w k]
  have "- (2 ^ 31) \<le> ?w div 2 ^ k" "?w div 2 ^ k < 2 ^ 31" by auto
  then show ?thesis by (simp add: shr_def ToInt32_small drop_bit_eq_div)
qed

lemma band_255: "band x (Fin 255) = num_of_int (ToInt32 x mod 256)"
  by (simp add: band_def and_255 trunc_def wrap32_def)

lemma hexToRgb_Str:
  "hexToRgb (Str s) =
     Inr \<lparr>rgb_r = num_of_int (ToInt32 (parseInt16 (String_replace 35 s)) div 65536 mod 256),
          rgb_g = num_of_int (ToInt32 (parseInt16 (String_replace 35 s)) div 256 mod 256),
          rgb_b = num_of_int (ToInt32 (parseInt16 (String_replace 35 s)) mod 256)\<rparr>"
  by (simp add: hexToRgb_def Let_def band_255 ToInt32_shr drop_bit_eq_div)

lemma parseInt16_plain:
  assumes "dropWhile is_whitespace S = S" and "S \<noteq> []" and "hd S \<noteq> 43" and "hd S \<noteq> 45"
    and "take 2 S \<noteq> [48, 120]" and "take 2 S \<noteq> [48, 88]"
    and "takeWhile is_hex_digit S = Z" and "Z \<noteq> []"
  shows "parseInt16 S = round_to_double (numeral_value Z)"
  using assms by (simp add: parseInt16_def Let_def)

lemma parseInt16_truncated:
  assumes "Z \<noteq> []" and "\<forall>d\<in>set Z. is_hex_digit d" and "\<not> is_hex_digit c"
    and "\<not> (Z = [48] \<and> (c = 120 \<or> c = 88))"
  shows "parseInt16 (Z @ c # rest) = round_to_double (numeral_value Z)"
proof (rule parseInt16_plain)
  obtain z zs where Z: "Z = z # zs" using assms(1) by (cases Z) auto
  have ws: "\<not> is_whitespace z" using assms(2) hex_digit_plain Z by auto
  show "hd (Z @ c # rest) \<noteq> 43" "hd (Z @ c # rest) \<noteq> 45"
    using assms(2) hex_digit_plain Z by auto
  show "take 2 (Z @ c # rest) \<noteq> [48, 120]" "take 2 (Z @ c # rest) \<noteq> [48, 88]"
    using assms(2,4) hex_digit_plain Z by (cases zs; auto)+
  show "takeWhile is_hex_digit (Z @ c # rest) = Z"
    using assms(2,3) by (simp add: takeWhile_tail)
  show "dropWhile is_whitespace (Z @ c # rest) = Z @ c # rest" using ws Z by simp
  show "Z @ c # rest \<noteq> []" by simp
  show "Z \<noteq> []" by (rule assms(1))
qed

lemma ToInt32_of_nat_bytes:
  "ToInt32 (Fin (of_nat v)) div 65536 mod 256 = int v div 65536 mod 256"
  "ToInt32 (Fin (of_nat v)) div 256 mod 256 = int v div 256 mod 256"
  "ToInt32 (Fin (of_nat v)) mod 256 = int v mod 256"
proof -
  have "trunc (of_nat v) = int v" using trunc_of_int [of "int v"] by simp
  then show "ToInt32 (Fin (of_nat v)) div 65536 mod 256 = int v div 65536 mod 256"
    "ToInt32 (Fin (of_nat v)) div 256 mod 256 = int v div 256 mod 256"
    "ToInt32 (Fin (of_nat v)) mod 256 = int v mod 256"
    by (simp_all add: wrap32_bytes)
qed

subsection \<open>Decoding a malformed string\<close>

text \<open>
  C9, as amended. For every string \<open>s\<close>, \<open>hexToRgb\<close> returns a colour and raises
  nothing. When \<open>parseInt\<close> fails with \<open>NaN\<close>, every channel is \<open>0\<close>: the bitwise
  operators turn the \<open>NaN\<close> into \<open>0\<close>, it does not reach the channels. When a
  character that is no hexadecimal digit follows the digits \<open>Z\<close> (and does not complete
  the prefix \<open>0x\<close>), the rest of the string is ignored: the channels are those of
  \<open>Z\<close> alone. Digits \<open>Z\<close> of any number, of value below \<open>2 ^ 53\<close>, give the three
  low bytes of their value, so a short numeral fills the channels from the right and a
  long one loses its high bytes.
\<close>

theorem hexToRgb_malformed:
  "(\<exists>c. hexToRgb (Str s) = Inr c)
   \<and> (parseInt16 (String_replace 35 s) = NaN \<longrightarrow>
        hexToRgb (Str s) = Inr \<lparr>rgb_r = Fin 0, rgb_g = Fin 0, rgb_b = Fin 0\<rparr>)
   \<and> (Z \<noteq> [] \<and> (\<forall>d\<in>set Z. is_hex_digit d) \<and> \<not> is_hex_digit c
        \<and> \<not> (Z = [48] \<and> (c = 120 \<or> c = 88)) \<longrightarrow>
        hexToRgb (Str (35 # Z @ c # rest)) = hexToRgb (Str (35 # Z)))
   \<and> (Z \<noteq> [] \<and> (\<forall>d\<in>set Z. is_hex_digit d) \<and> numeral_value Z < 2 ^ 53 \<longrightarrow>
        hexToRgb (Str (35 # Z)) =
          Inr \<lparr>rgb_r = num_of_int (int (numeral_value Z) div 65536 mod 256),
               rgb_g = num_of_int (int (numeral_value Z) div 256 mod 256),
               rgb_b = num_of_int (int (numeral_value Z) mod 256)\<rparr>)"
proof (intro conjI impI)
  show "\<exists>c. hexToRgb (Str s) = Inr c" by (simp add: hexToRgb_Str)
next
  assume "parseInt16 (String_replace 35 s) = NaN"
  then show "hexToRgb (Str s) = Inr \<lparr>rgb_r = Fin 0, rgb_g = Fin 0, rgb_b = Fin 0\<rparr>"
    by (simp add: hexToRgb_Str num_of_int_def)
next
  assume a: "Z \<noteq> [] \<and> (\<forall>d\<in>set Z. is_hex_digit d) \<and> \<not> is_hex_digit c
    \<and> \<not> (Z = [48] \<and> (c = 120 \<or> c = 88))"
  then have "parseInt16 (Z @ c # rest) = parseInt16 Z"
    by (simp add: parseInt16_truncated parseInt16_numeral)
  then show "hexToRgb (Str (35 # Z @ c # rest)) = hexToRgb (Str (35 # Z))"
    by (simp add: hexToRgb_Str)
next
  assume a: "Z \<noteq> [] \<and> (\<forall>d\<in>set Z. is_hex_digit d) \<and> numeral_value Z < 2 ^ 53"
  then have "parseInt16 Z = Fin (of_nat (numeral_value Z))"
    by (simp add: parseInt16_numeral round_to_double_exact)
  then show "hexToRgb (Str (35 # Z)) =
          Inr \<lparr>rgb_r = num_of_int (int (numeral_value Z) div 65536 mod 256),
               rgb_g = num_of_int (int (numeral_value Z) div 256 mod 256),
               rgb_b = num_of_int (int (numeral_value Z) mod 256)\<rparr>"
    by (simp add: hexToRgb_Str ToInt32_of_nat_bytes del: ToInt32.simps)
qed

lemma lit_simps:
  "lit [] = []"
  "lit (c # cs) = of_char c # lit cs"
  by (simp_all add: lit_def)

text \<open>
  The three cases at \<open>zzzzzz\<close>, \<open>#12gzz\<close> and \<open>#abc\<close>.
\<close>

theorem hexToRgb_malformed_witness:
  "hexToRgb (Str (lit ''zzzzzz'')) = Inr \<lparr>rgb_r = Fin 0, rgb_g = Fin 0, rgb_b = Fin 0\<rparr>
   \<and> hexToRgb (Str (lit ''#12gzz'')) = hexToRgb (Str (lit ''#12''))
   \<and> hexToRgb (Str (lit ''#abc'')) = Inr \<lparr>rgb_r = Fin 0, rgb_g = Fin 10, rgb_b = Fin 188\<rparr>"
proof (intro conjI)
  have "parseInt16 (String_replace 35 (lit ''zzzzzz'')) = NaN"
    by (simp add: lit_def parseInt16_def is_whitespace_def is_hex_digit_def)
  with hexToRgb_malformed [of "lit ''zzzzzz''"]
  show "hexToRgb (Str (lit ''zzzzzz'')) = Inr \<lparr>rgb_r = Fin 0, rgb_g = Fin 0, rgb_b = Fin 0\<rparr>"
    by blast
next
  have "lit ''12'' \<noteq> [] \<and> (\<forall>d\<in>set (lit ''12''). is_hex_digit d) \<and> \<not> is_hex_digit 103
      \<and> \<not> (lit ''12'' = [48] \<and> (103 = (120::nat) \<or> 103 = (88::nat)))"
    by (simp add: lit_def is_hex_digit_def)
  with hexToRgb_malformed [of _ "lit ''12''" 103 "lit ''zz''"]
  have "hexToRgb (Str (35 # lit ''12'' @ 103 # lit ''zz'')) = hexToRgb (Str (35 # lit ''12''))"
    by blast
  then show "hexToRgb (Str (lit ''#12gzz'')) = hexToRgb (Str (lit ''#12''))"
    by (simp add: lit_def)
next
  have v: "numeral_value (lit ''abc'') = 2748"
    by (simp add: lit_def numeral_value_def digit_value_def)
  have "lit ''abc'' \<noteq> [] \<and> (\<forall>d\<in>set (lit ''abc''). is_hex_digit d)
      \<and> numeral_value (lit ''abc'') < 2 ^ 53"
    unfolding v by (simp add: lit_def is_hex_digit_def)
  with hexToRgb_malformed [of _ "lit ''abc''"]
  have "hexToRgb (Str (35 # lit ''abc'')) =
          Inr \<lparr>rgb_r = num_of_int (int (numeral_value (lit ''abc'')) div 65536 mod 256),
               rgb_g = num_of_int (int (numeral_value (lit ''abc'')) div 256 mod 256),
               rgb_b = num_of_int (int (numeral_value (lit ''abc'')) mod 256)\<rparr>"
    by blast
  then show "hexToRgb (Str (lit ''#abc'')) = Inr \<lparr>rgb_r = Fin 0, rgb_g = Fin 10, rgb_b = Fin 188\<rparr>"
    unfolding v by (simp add: lit_def num_of_int_def)
qed

text \<open>
  C9 as first stated has the failure of the parse propagate to the channels. At
  \<open>zzzzzz\<close> the parse fails with \<open>NaN\<close>, and the channels are three zeros, not
  \<open>NaN\<close>.
\<close>

theorem hexToRgb_unparseable_counterexample:
  "parseInt16 (String_replace 35 (lit ''zzzzzz'')) = NaN
   \<and> hexToRgb (Str (lit ''zzzzzz'')) = Inr \<lparr>rgb_r = Fin 0, rgb_g = Fin 0, rgb_b = Fin 0\<rparr>"
  by (simp add: hexToRgb_Str lit_def parseInt16_def is_whitespace_def is_hex_digit_def num_of_int_def)

subsection \<open>The range of the decoded channels\<close>

text \<open>
  C10. For every string \<open>s\<close>, well formed or not, \<open>hexToRgb\<close> returns three
  integers, each in \<open>[0, 255]\<close>; when the string has no numeral to parse, so that
  \<open>parseInt\<close> is \<open>NaN\<close>, the three are \<open>0\<close>.
\<close>

theorem hexToRgb_channels:
  "\<exists>r g b. hexToRgb (Str s) =
       Inr \<lparr>rgb_r = num_of_int r, rgb_g = num_of_int g, rgb_b = num_of_int b\<rparr>
     \<and> 0 \<le> r \<and> r \<le> 255 \<and> 0 \<le> g \<and> g \<le> 255 \<and> 0 \<le> b \<and> b \<le> 255
     \<and> (parseInt16 (String_replace 35 s) = NaN \<longrightarrow> r = 0 \<and> g = 0 \<and> b = 0)"
proof -
  let ?w = "ToInt32 (parseInt16 (String_replace 35 s))"
  have bounds: "0 \<le> ?w div 65536 mod 256" "?w div 65536 mod 256 \<le> 255"
    "0 \<le> ?w div 256 mod 256" "?w div 256 mod 256 \<le> 255"
    "0 \<le> ?w mod 256" "?w mod 256 \<le> 255"
    using pos_mod_bound [of 256 "?w div 65536"] pos_mod_bound [of 256 "?w div 256"]
      pos_mod_bound [of 256 ?w] by simp_all
  have zero: "parseInt16 (String_replace 35 s) = NaN \<longrightarrow>
      ?w div 65536 mod 256 = 0 \<and> ?w div 256 mod 256 = 0 \<and> ?w mod 256 = 0"
    by simp
  show ?thesis
    apply (intro exI conjI)
           apply (rule hexToRgb_Str)
    using bounds zero apply simp_all
    done
qed

text \<open>A string with nothing to parse decodes to black.\<close>

theorem hexToRgb_channels_witness:
  "hexToRgb (Str (lit ''not a colour'')) = Inr \<lparr>rgb_r = Fin 0, rgb_g = Fin 0, rgb_b = Fin 0\<rparr>"
proof -
  have "parseInt16 (String_replace 35 (lit ''not a colour'')) = NaN"
    by (simp add: lit_def parseInt16_def is_whitespace_def is_hex_digit_def)
  with hexToRgb_channels [of "lit ''not a colour''"] show ?thesis
    by (auto simp: num_of_int_def)
qed

subsection \<open>The timestamp of a date\<close>

lemma Object_keys_formats:
  "Object_keys formats = map lit [''RELATIVE'', ''DATE'', ''TIME'', ''SHORT_TIME'', ''FULL'']"
  by (simp add: Object_keys_def formats_def)







subsection \<open>The two variants of the formatter\<close>

lemma variants_agree:
  assumes "Array_includes (Object_keys formats) (default_FULL format)"
  shows "fromDate h date format = fromDate_part_000 h date format"
    and "now h clock format = now_part_000 h clock format"
    and "fromNow h clock ms format = fromNow_part_000 h clock ms format"
  using assms
  by (simp_all add: fromDate_def fromDate_part_000_def now_def now_part_000_def fromNow_def
      fromNow_part_000_def Let_def)

lemma variants_differ:
  assumes "\<not> Array_includes (Object_keys formats) (default_FULL format)"
  shows "typeof date = T_number \<Longrightarrow> fromDate h date format = Inl InvalidArgument
           \<and> (\<exists>s. fromDate_part_000 h date format = Inr s)"
    and "typeof date \<noteq> T_number \<Longrightarrow> fromDate h date format = fromDate_part_000 h date format"
  using assms
  by (simp_all add: fromDate_def fromDate_part_000_def Let_def)

lemma includes_iff:
  "Array_includes (Object_keys formats) (default_FULL format) \<longleftrightarrow>
     format \<in> insert Undefined
       (set (map (Str \<circ> lit) [''RELATIVE'', ''DATE'', ''TIME'', ''SHORT_TIME'', ''FULL'']))"
  by (auto simp: Array_includes_def Object_keys_formats default_FULL_def)

text \<open>
  C5. When the format is one of the five tags (or is left out), the variant that
  validates the format and the one that does not return the same result, for every
  date, and so do their \<open>now\<close> and \<open>fromNow\<close>. Whenever the two \<open>fromDate\<close>
  differ, the format is none of the five tags, the validating variant raises and the
  other returns a string.
\<close>

theorem fromDate_variants:
  "(format \<in> insert Undefined
       (set (map (Str \<circ> lit) [''RELATIVE'', ''DATE'', ''TIME'', ''SHORT_TIME'', ''FULL''])) \<longrightarrow>
      fromDate h date format = fromDate_part_000 h date format
      \<and> now h clock format = now_part_000 h clock format
      \<and> fromNow h clock ms format = fromNow_part_000 h clock ms format)
   \<and> (fromDate h date format \<noteq> fromDate_part_000 h date format \<longrightarrow>
      format \<notin> set (map (Str \<circ> lit) [''RELATIVE'', ''DATE'', ''TIME'', ''SHORT_TIME'', ''FULL''])
      \<and> fromDate h date format = Inl InvalidArgument
      \<and> (\<exists>s. fromDate_part_000 h date format = Inr s))"
proof (intro conjI impI)
  assume "format \<in> insert Undefined
       (set (map (Str \<circ> lit) [''RELATIVE'', ''DATE'', ''TIME'', ''SHORT_TIME'', ''FULL'']))"
  then have v: "Array_includes (Object_keys formats) (default_FULL format)"
    by (simp only: includes_iff)
  from v show "fromDate h date format = fromDate_part_000 h date format"
    by (rule variants_agree)
  from v show "now h clock format = now_part_000 h clock format"
    by (rule variants_agree)
  from v show "fromNow h clock ms format = fromNow_part_000 h clock ms format"
    by (rule variants_agree)
next
  assume d: "fromDate h date format \<noteq> fromDate_part_000 h date format"
  then have n: "\<not> Array_includes (Object_keys formats) (default_FULL format)"
    using variants_agree(1) by blast
  then show "format \<notin> set (map (Str \<circ> lit) [''RELATIVE'', ''DATE'', ''TIME'', ''SHORT_TIME'', ''FULL''])"
    unfolding includes_iff by blast
  have t: "typeof date = T_number" using d variants_differ(2) [OF n] by blast
  from variants_differ(1) [OF n t]
  show "fromDate h date format = Inl InvalidArgument"
    and "\<exists>s. fromDate_part_000 h date format = Inr s" by blast+
qed

text \<open>Agreement at \<open>TIME\<close>, disagreement at \<open>BOGUS\<close>.\<close>

theorem fromDate_variants_witness:
  "(\<forall>h d. fromDate h (Num d) (Str (lit ''TIME'')) = fromDate_part_000 h (Num d) (Str (lit ''TIME'')))
   \<and> (\<forall>h. fromDate h (Num (Fin 0)) (Str (lit ''BOGUS'')) = Inl InvalidArgument
          \<and> (\<exists>s. fromDate_part_000 h (Num (Fin 0)) (Str (lit ''BOGUS'')) = Inr s))"
proof (intro conjI allI)
  fix h d
  have "Str (lit ''TIME'') \<in> insert Undefined
       (set (map (Str \<circ> lit) [''RELATIVE'', ''DATE'', ''TIME'', ''SHORT_TIME'', ''FULL'']))"
    by simp
  with fromDate_variants [of "Str (lit ''TIME'')" h "Num d"]
  show "fromDate h (Num d) (Str (lit ''TIME'')) = fromDate_part_000 h (Num d) (Str (lit ''TIME''))"
    by blast
next
  fix h
  have "fromDate h (Num (Fin 0)) (Str (lit ''BOGUS'')) \<noteq>
      fromDate_part_000 h (Num (Fin 0)) (Str (lit ''BOGUS''))"
    by (simp add: fromDate_def fromDate_part_000_def Let_def default_FULL_def Array_includes_def
        Object_keys_formats lit_def)
  with fromDate_variants [of "Str (lit ''BOGUS'')" h "Num (Fin 0)"]
  show "fromDate h (Num (Fin 0)) (Str (lit ''BOGUS'')) = Inl InvalidArgument"
    and "\<exists>s. fromDate_part_000 h (Num (Fin 0)) (Str (lit ''BOGUS'')) = Inr s"
    by blast+
qed

subsection \<open>The greatest common divisor\<close>

lemma trunc_nonneg: "0 \<le> q \<Longrightarrow> trunc q = \<lfloor>q\<rfloor>"
  by (simp add: trunc_def)

lemma rem_nat:
  assumes "b \<noteq> 0"
  shows "rem (Fin (of_nat a)) (Fin (of_nat b)) = Fin (of_nat (a mod b))"
proof -
  have "trunc (of_nat a / of_nat b) = int (a div b)"
    by (simp add: trunc_nonneg floor_divide_of_nat_eq)
  moreover have "(of_nat a :: rat) - of_nat b * of_nat (a div b) = of_nat (a mod b)"
    by (simp add: of_nat_mod of_nat_div minus_mult_div_eq_mod flip: of_nat_mult of_nat_diff)
  ultimately show ?thesis using assms by simp
qed

lemma gdc_nat:
  "gdc (Num (Fin (of_nat a))) (Num (Fin (of_nat b))) = Some (Inr (Fin (of_nat (gcd a b))))"
proof (induction a b rule: gcd_nat_induct)
  case (base a)
  show ?case by (subst gdc.simps) simp
next
  case (step a b)
  then have "b \<noteq> 0" by simp
  then have "gdc (Num (Fin (of_nat a))) (Num (Fin (of_nat b))) =
      gdc (Num (Fin (of_nat b))) (Num (Fin (of_nat (a mod b))))"
    by (subst gdc.simps) (simp add: rem_nat del: rem.simps)
  then show ?case using step by (simp add: gcd_red_nat [symmetric])
qed


text \<open>
  C7. For all natural numbers \<open>a\<close> and \<open>b\<close>, \<open>gdc\<close> returns, and what it returns is
  the greatest common divisor of \<open>a\<close> and \<open>b\<close>. While \<open>b\<close> is positive, a call is
  the call on \<open>b\<close> and \<open>a mod b\<close>, whose second argument is smaller. So
  \<open>gdc(12, 18)\<close> is \<open>6\<close>, \<open>lcm(12, 18)\<close> is \<open>36\<close>, \<open>gdcArray([12, 18, 24])\<close> is
  \<open>6\<close> and \<open>lcmArray([12, 18, 24])\<close> is \<open>72\<close>.
\<close>

theorem gdc_is_gcd:
  "gdc (Num (Fin (of_nat a))) (Num (Fin (of_nat b))) = Some (Inr (Fin (of_nat (gcd a b))))
   \<and> (0 < b \<longrightarrow>
        gdc (Num (Fin (of_nat a))) (Num (Fin (of_nat b))) =
          gdc (Num (Fin (of_nat b))) (Num (Fin (of_nat (a mod b))))
        \<and> a mod b < b)
   \<and> gdc (Num (Fin 12)) (Num (Fin 18)) = Some (Inr (Fin 6))
   \<and> lcm (Num (Fin 12)) (Num (Fin 18)) = Some (Inr (Fin 36))
   \<and> gdcArray [Num (Fin 12), Num (Fin 18), Num (Fin 24)] = Some (Inr (Fin 6))
   \<and> lcmArray [Num (Fin 12), Num (Fin 18), Num (Fin 24)] = Some (Inr (Fin 72))"
proof (intro conjI impI)
  show "gdc (Num (Fin (of_nat a))) (Num (Fin (of_nat b))) = Some (Inr (Fin (of_nat (gcd a b))))"
    by (rule gdc_nat)
  show "gdc (Num (Fin 12)) (Num (Fin 18)) = Some (Inr (Fin 6))" by code_simp
  show "lcm (Num (Fin 12)) (Num (Fin 18)) = Some (Inr (Fin 36))" by code_simp
  show "gdcArray [Num (Fin 12), Num (Fin 18), Num (Fin 24)] = Some (Inr (Fin 6))" by code_simp
  show "lcmArray [Num (Fin 12), Num (Fin 18), Num (Fin 24)] = Some (Inr (Fin 72))" by code_simp
next
  assume b: "0 < b"
  then show "gdc (Num (Fin (of_nat a))) (Num (Fin (of_nat b))) =
      gdc (Num (Fin (of_nat b))) (Num (Fin (of_nat (a mod b))))"
    by (subst gdc.simps) (simp add: rem_nat del: rem.simps)
  from b show "a mod b < b" by simp
qed

text \<open>One step of the recursion and its result, at \<open>48\<close> and \<open>36\<close>.\<close>

theorem gdc_is_gcd_witness:
  "gdc (Num (Fin 48)) (Num (Fin 36)) = Some (Inr (Fin 12))
   \<and> gdc (Num (Fin 48)) (Num (Fin 36)) = gdc (Num (Fin 36)) (Num (Fin 12))"
proof -
  have g: "gcd (48::nat) 36 = 12" by code_simp
  have m: "(48::nat) mod 36 = 12" by simp
  have p: "(0::nat) < 36" by simp
  note t = gdc_is_gcd [of 48 36]
  have "gdc (Num (Fin (of_nat 48))) (Num (Fin (of_nat 36))) =
      Some (Inr (Fin (of_nat (gcd 48 36))))"
    using t by blast
  moreover have "gdc (Num (Fin (of_nat 48))) (Num (Fin (of_nat 36))) =
      gdc (Num (Fin (of_nat 36))) (Num (Fin (of_nat (48 mod 36))))"
    using t p by blast
  ultimately show ?thesis unfolding g m by simp
qed

subsection \<open>The range of a random integer\<close>





subsection \<open>A random colour in radix 16\<close>












subsection \<open>Primality by trial division\<close>

lemma le_sqrt_real:
  "le_sqrt (Fin i) (Fin x) \<longleftrightarrow> 0 \<le> x \<and> real_of_rat i \<le> sqrt (real_of_rat x)"
proof (cases "0 \<le> x")
  case False
  then show ?thesis by simp
next
  case x: True
  show ?thesis
  proof (cases "i \<le> 0")
    case True
    then have "real_of_rat i \<le> 0" by (simp add: of_rat_le_0_iff)
    moreover have "0 \<le> sqrt (real_of_rat x)" using x by (simp add: zero_le_of_rat_iff)
    ultimately have "real_of_rat i \<le> sqrt (real_of_rat x)" by (rule order_trans)
    then show ?thesis using x True by simp
  next
    case False
    then have i: "0 \<le> real_of_rat i" by (simp add: zero_le_of_rat_iff)
    have "real_of_rat i \<le> sqrt (real_of_rat x) \<longleftrightarrow> sqrt ((real_of_rat i)\<^sup>2) \<le> sqrt (real_of_rat x)"
      using i by simp
    also have "\<dots> \<longleftrightarrow> (real_of_rat i)\<^sup>2 \<le> real_of_rat x" by (rule real_sqrt_le_iff)
    also have "\<dots> \<longleftrightarrow> real_of_rat (i * i) \<le> real_of_rat x"
      by (simp add: of_rat_mult power2_eq_square)
    also have "\<dots> \<longleftrightarrow> i * i \<le> x" by (rule of_rat_less_eq)
    finally show ?thesis using x False by simp
  qed
qed

lemma le_floor_sqrt:
  fixes j :: int
  assumes "0 \<le> j" and "0 \<le> q"
  shows "j \<le> \<lfloor>sqrt (real_of_rat q)\<rfloor> \<longleftrightarrow> of_int j * of_int j \<le> q"
proof -
  have "j \<le> \<lfloor>sqrt (real_of_rat q)\<rfloor> \<longleftrightarrow> real_of_rat (of_int j) \<le> sqrt (real_of_rat q)"
    by (simp add: le_floor_iff)
  also have "\<dots> \<longleftrightarrow> le_sqrt (Fin (of_int j)) (Fin q)" using assms(2) by (simp only: le_sqrt_real) simp
  also have "\<dots> \<longleftrightarrow> of_int j * of_int j \<le> q"
  proof (cases "j = 0")
    case True
    then show ?thesis using assms(2) by simp
  next
    case False
    then have "\<not> (of_int j :: rat) \<le> 0" using assms(1) by simp
    moreover have "of_int j * of_int j \<le> q \<Longrightarrow> 0 \<le> q" by (rule assms(2))
    ultimately show ?thesis using assms(2) by simp
  qed
  finally show ?thesis .
qed

lemma rem_zero_iff:
  fixes j :: int
  assumes "j \<noteq> 0"
  shows "strict_eq (rem (Fin q) (Fin (of_int j))) (Fin 0) \<longleftrightarrow> (\<exists>k::int. q = of_int j * of_int k)"
proof -
  have j: "(of_int j :: rat) \<noteq> 0" using assms by simp
  have "strict_eq (rem (Fin q) (Fin (of_int j))) (Fin 0) \<longleftrightarrow>
      q = of_int j * of_int (trunc (q / of_int j))"
    using j by simp
  also have "\<dots> \<longleftrightarrow> (\<exists>k::int. q = of_int j * of_int k)"
  proof
    assume "q = of_int j * of_int (trunc (q / of_int j))"
    then show "\<exists>k::int. q = of_int j * of_int k" by blast
  next
    assume "\<exists>k::int. q = of_int j * of_int k"
    then obtain k :: int where k: "q = of_int j * of_int k" by blast
    then have "q / of_int j = of_int k" using j by simp
    then have "trunc (q / of_int j) = k" by (simp only: trunc_of_int)
    with k show "q = of_int j * of_int (trunc (q / of_int j))" by simp
  qed
  finally show ?thesis .
qed

lemma isPrime_loop_finite:
  fixes i :: int
  assumes "2 \<le> i"
  shows "isPrime_loop (Fin q) (Fin (of_int i)) =
         Some (\<not> (\<exists>j::int. i \<le> j \<and> of_int j * of_int j \<le> q \<and> (\<exists>k::int. q = of_int j * of_int k)))"
  using assms
proof (induction "nat (\<lfloor>q\<rfloor> + 1 - i)" arbitrary: i rule: less_induct)
  case less
  have ipos: "(2::rat) \<le> of_int i" using less.prems by simp
  have guard: "le_sqrt (Fin (of_int i)) (Fin q) \<longleftrightarrow> of_int i * of_int i \<le> q"
  proof -
    have "0 \<le> (of_int i :: rat) * of_int i" by simp
    then have "of_int i * of_int i \<le> q \<Longrightarrow> 0 \<le> q" by linarith
    moreover have "\<not> (of_int i :: rat) \<le> 0" using ipos by linarith
    ultimately show ?thesis by auto
  qed
  show ?case
  proof (cases "of_int i * of_int i \<le> q")
    case False
    have "\<not> of_int j * of_int j \<le> q" if "i \<le> j" for j :: int
    proof -
      have "(of_int i :: rat) \<le> of_int j" using that by simp
      then have "(of_int i :: rat) * of_int i \<le> of_int j * of_int j"
        using ipos by (intro mult_mono) auto
      with False show ?thesis by linarith
    qed
    then have "\<not> (\<exists>j::int. i \<le> j \<and> of_int j * of_int j \<le> q \<and> (\<exists>k::int. q = of_int j * of_int k))"
      by blast
    then show ?thesis using False
      by (subst isPrime_loop.simps) (simp add: guard del: le_sqrt.simps rem.simps)
  next
    case True
    show ?thesis
    proof (cases "\<exists>k::int. q = of_int i * of_int k")
      case d: True
      then have "\<exists>j::int. i \<le> j \<and> of_int j * of_int j \<le> q \<and> (\<exists>k::int. q = of_int j * of_int k)"
        using True by (intro exI [of _ i]) simp
      moreover have "strict_eq (rem (Fin q) (Fin (of_int i))) (Fin 0)"
        using d less.prems by (subst rem_zero_iff) auto
      ultimately show ?thesis using True
        by (subst isPrime_loop.simps) (simp add: guard del: le_sqrt.simps rem.simps)
    next
      case d: False
      have nz: "\<not> strict_eq (rem (Fin q) (Fin (of_int i))) (Fin 0)"
        using d less.prems by (subst rem_zero_iff) auto
      have "(of_int i :: rat) * 1 \<le> of_int i * of_int i" using ipos by (intro mult_left_mono) auto
      then have "of_int i \<le> q" using True by linarith
      then have "i \<le> \<lfloor>q\<rfloor>" by (simp add: le_floor_iff)
      then have m: "nat (\<lfloor>q\<rfloor> + 1 - (i + 1)) < nat (\<lfloor>q\<rfloor> + 1 - i)" by simp
      have IH: "isPrime_loop (Fin q) (Fin (of_int (i + 1))) =
          Some (\<not> (\<exists>j::int. i + 1 \<le> j \<and> of_int j * of_int j \<le> q \<and> (\<exists>k::int. q = of_int j * of_int k)))"
        using less.hyps [OF m] less.prems by simp
      have "(\<exists>j::int. i \<le> j \<and> of_int j * of_int j \<le> q \<and> (\<exists>k::int. q = of_int j * of_int k)) \<longleftrightarrow>
          (\<exists>j::int. i + 1 \<le> j \<and> of_int j * of_int j \<le> q \<and> (\<exists>k::int. q = of_int j * of_int k))"
      proof
        assume "\<exists>j::int. i \<le> j \<and> of_int j * of_int j \<le> q \<and> (\<exists>k::int. q = of_int j * of_int k)"
        then obtain j :: int where j: "i \<le> j" "of_int j * of_int j \<le> q"
          "\<exists>k::int. q = of_int j * of_int k" by blast
        with d have "j \<noteq> i" by blast
        with j(1) have "i + 1 \<le> j" by simp
        with j show "\<exists>j::int. i + 1 \<le> j \<and> of_int j * of_int j \<le> q \<and> (\<exists>k::int. q = of_int j * of_int k)"
          by blast
      next
        assume "\<exists>j::int. i + 1 \<le> j \<and> of_int j * of_int j \<le> q \<and> (\<exists>k::int. q = of_int j * of_int k)"
        then obtain j :: int where j: "i + 1 \<le> j" "of_int j * of_int j \<le> q"
          "\<exists>k::int. q = of_int j * of_int k" by blast
        then have "i \<le> j" by simp
        with j show "\<exists>j::int. i \<le> j \<and> of_int j * of_int j \<le> q \<and> (\<exists>k::int. q = of_int j * of_int k)"
          by blast
      qed
      moreover have "isPrime_loop (Fin q) (Fin (of_int i)) = isPrime_loop (Fin q) (Fin (of_int (i + 1)))"
        using True nz
        by (subst isPrime_loop.simps) (simp add: guard add.commute del: le_sqrt.simps rem.simps)
      ultimately show ?thesis using IH by simp
    qed
  qed
qed

lemma isPrime_loop_PosInf: "isPrime_loop PosInf (Fin i) = None"
proof -
  have never: "num = PosInf \<longrightarrow> is_fin j \<longrightarrow> False" if "isPrime_loop num j = Some y" for num j y
  proof (rule isPrime_loop.raw_induct
      [where P = "\<lambda>num j y. num = PosInf \<longrightarrow> is_fin j \<longrightarrow> False", OF _ that])
    fix f num j and y :: bool
    assume IH: "\<And>a b z. f a b = Some z \<Longrightarrow> a = PosInf \<longrightarrow> is_fin b \<longrightarrow> False"
      and body: "(if le_sqrt j num
           then if strict_eq (rem num j) (Fin 0) then Some False else f num (add j (Fin 1))
           else Some True) = Some y"
    show "num = PosInf \<longrightarrow> is_fin j \<longrightarrow> False"
    proof (intro impI)
      assume n: "num = PosInf" and "is_fin j"
      then obtain q where q: "j = Fin q" by (cases j) auto
      from body have "f PosInf (Fin (q + 1)) = Some y"
        unfolding q n by simp
      from IH [OF this] show False by simp
    qed
  qed
  show ?thesis
  proof (cases "isPrime_loop PosInf (Fin i)")
    case None
    then show ?thesis .
  next
    case (Some y)
    from never [OF Some] show ?thesis by simp
  qed
qed

lemma divisor_below_sqrt:
  assumes q: "2 \<le> q"
  shows "(\<exists>j::int. 2 \<le> j \<and> of_int j * of_int j \<le> q \<and> (\<exists>k::int. q = of_int j * of_int k)) \<longleftrightarrow>
      (\<exists>i::int. 2 \<le> i \<and> i \<le> \<lfloor>sqrt (real_of_rat q)\<rfloor> \<and> (\<exists>k::int. q = of_int i * of_int k))"
proof -
  have "(of_int j * of_int j \<le> q) = (j \<le> \<lfloor>sqrt (real_of_rat q)\<rfloor>)" if "2 \<le> j" for j :: int
  proof -
    have "0 \<le> j" "0 \<le> q" using that q by linarith+
    then show ?thesis by (rule le_floor_sqrt [symmetric])
  qed
  then show ?thesis by blast
qed
lemma isPrime_finite:
  assumes q: "2 \<le> q"
  shows "isPrime (Num (Fin q)) =
      Some (Inr (\<not> (\<exists>j::int. 2 \<le> j \<and> of_int j * of_int j \<le> q \<and> (\<exists>k::int. q = of_int j * of_int k))))"
proof -
  have "\<not> lt (Fin q) (Fin 2)" using q by simp
  moreover have "isPrime_loop (Fin q) (Fin 2) =
         Some (\<not> (\<exists>j::int. 2 \<le> j \<and> of_int j * of_int j \<le> q \<and> (\<exists>k::int. q = of_int j * of_int k)))"
    using isPrime_loop_finite [of 2 q] by simp
  ultimately show ?thesis unfolding isPrime_def by simp
qed

text \<open>
  C3, as amended. For every number other than \<open>Infinity\<close>, \<open>isPrime\<close> returns:
  \<open>false\<close> below \<open>2\<close> (and at \<open>-Infinity\<close>), \<open>true\<close> at \<open>NaN\<close>, and for a finite
  \<open>q \<ge> 2\<close> it returns \<open>false\<close> exactly when some integer \<open>i\<close> with
  \<open>2 \<le> i \<le> floor(sqrt(q))\<close> divides \<open>q\<close> with an integer quotient. So
  \<open>isPrime(2)\<close> and \<open>isPrime(17)\<close> are \<open>true\<close>, \<open>isPrime(1)\<close> and \<open>isPrime(18)\<close>
  are \<open>false\<close>.
\<close>

theorem isPrime_characterised:
  "isPrime (Num NaN) = Some (Inr True)
   \<and> isPrime (Num NegInf) = Some (Inr False)
   \<and> (q < 2 \<longrightarrow> isPrime (Num (Fin q)) = Some (Inr False))
   \<and> (2 \<le> q \<longrightarrow>
        isPrime (Num (Fin q)) =
          Some (Inr (\<not> (\<exists>i::int. 2 \<le> i \<and> i \<le> \<lfloor>sqrt (real_of_rat q)\<rfloor>
                           \<and> (\<exists>k::int. q = of_int i * of_int k)))))
   \<and> isPrime (Num (Fin 2)) = Some (Inr True)
   \<and> isPrime (Num (Fin 1)) = Some (Inr False)
   \<and> isPrime (Num (Fin 17)) = Some (Inr True)
   \<and> isPrime (Num (Fin 18)) = Some (Inr False)"
proof (intro conjI impI)
  show "isPrime (Num NaN) = Some (Inr True)"
    by (simp add: isPrime_def isPrime_loop.simps)
  show "isPrime (Num NegInf) = Some (Inr False)"
    by (simp add: isPrime_def)
  show "isPrime (Num (Fin 2)) = Some (Inr True)" by code_simp
  show "isPrime (Num (Fin 1)) = Some (Inr False)" by code_simp
  show "isPrime (Num (Fin 17)) = Some (Inr True)" by code_simp
  show "isPrime (Num (Fin 18)) = Some (Inr False)" by code_simp
next
  assume "q < 2"
  then show "isPrime (Num (Fin q)) = Some (Inr False)" by (simp add: isPrime_def)
next
  assume q: "2 \<le> q"
  show "isPrime (Num (Fin q)) =
          Some (Inr (\<not> (\<exists>i::int. 2 \<le> i \<and> i \<le> \<lfloor>sqrt (real_of_rat q)\<rfloor>
                           \<and> (\<exists>k::int. q = of_int i * of_int k))))"
    by (simp only: isPrime_finite [OF q] divisor_below_sqrt [OF q])
qed

text \<open>Below \<open>2\<close> at \<open>1.5\<close>; a divisor up to the root at \<open>9\<close>.\<close>

theorem isPrime_characterised_witness:
  "isPrime (Num (Fin (3 / 2))) = Some (Inr False)
   \<and> isPrime (Num (Fin 9)) = Some (Inr False)"
proof
  have "(3 / 2 :: rat) < 2" by simp
  with isPrime_characterised [of "3 / 2"]
  show "isPrime (Num (Fin (3 / 2))) = Some (Inr False)" by blast
next
  have e: "\<exists>i::int. 2 \<le> i \<and> i \<le> \<lfloor>sqrt (real_of_rat 9)\<rfloor> \<and> (\<exists>k::int. (9::rat) = of_int i * of_int k)"
  proof (intro exI conjI)
    show "(2::int) \<le> 3" by simp
    show "(3::int) \<le> \<lfloor>sqrt (real_of_rat 9)\<rfloor>" by (subst le_floor_sqrt) simp_all
    show "(9::rat) = of_int 3 * of_int 3" by simp
  qed
  have "(2::rat) \<le> 9" by simp
  with isPrime_characterised [of 9]
  have "isPrime (Num (Fin 9)) =
      Some (Inr (\<not> (\<exists>i::int. 2 \<le> i \<and> i \<le> \<lfloor>sqrt (real_of_rat 9)\<rfloor>
                       \<and> (\<exists>k::int. (9::rat) = of_int i * of_int k))))"
    by blast
  then show "isPrime (Num (Fin 9)) = Some (Inr False)" by (simp only: e not_True_eq_False)
qed

text \<open>
  C3 as first stated ranges over every number. At \<open>Infinity\<close> the guard of the loop
  holds for every \<open>i\<close> and no remainder is \<open>0\<close>: \<open>isPrime\<close> never returns.
\<close>

theorem isPrime_Infinity_counterexample:
  "isPrime (Num PosInf) = None"
  by (simp add: isPrime_def isPrime_loop_PosInf)

subsection \<open>When an operation raises\<close>

lemma typeof_number: "typeof v = T_number \<longleftrightarrow> (\<exists>x. v = Num x)"
  by (cases v) auto























end
